theory Spec2Isabelle
  imports
    Main
    "HOL-Library.Char_ord"
    "HOL-Library.List_Lexorder"
    "HOL-Library.Product_Lexorder"
    "HOL-Library.Multiset"
begin

section \<open>The schema generator of \<open>scripts/process_schemas.py\<close>\<close>

text \<open>
  The script reads a directory of Avro schema files, turns each into a \<open>SchemaClass\<close>,
  and writes one generated Python class per schema followed by the table \<open>postMethods\<close>.
  Names are strings compared by character code, first difference first (the order of
  Python's \<open>sorted\<close> on the names); tuples are compared component by component.
  An exception of the script is a value of type \<open>error\<close>, and a function that can raise
  returns \<open>error + 'a\<close>.
\<close>

subsection \<open>Data\<close>

datatype error =
    SchemaParseException          \<comment> \<open>raised by \<open>avro.schema.parse\<close>\<close>
  | AssertionError                \<comment> \<open>a failed \<open>assert\<close>\<close>
  | ValueError                    \<comment> \<open>\<open>list.remove\<close> of an absent element\<close>
  | IndexError                    \<comment> \<open>a sequence index out of range\<close>
  | AttributeError                \<comment> \<open>an attribute the object does not have\<close>
  | KeyError                      \<comment> \<open>a dictionary key that is absent\<close>
  | UnionAssumptionsViolated      \<comment> \<open>\<open>Exception("Schema union assumptions violated")\<close>\<close>

text \<open>
  The type of a field, by the class of the \<open>avro.schema\<close> object: only the class, the
  primitive's type name, the record's name and the nesting are read by the script.
\<close>

datatype avro_type =
    PrimitiveSchema string
  | FixedSchema string
  | EnumType string
  | RecordType string
  | ArraySchema avro_type
  | MapSchema avro_type
  | UnionSchema "avro_type list"

text \<open>
  A field of a record. \<open>field_default\<close> is the text that \<open>format\<close> gives for
  \<open>field.default\<close> (\<open>None\<close> for a field without a default).
\<close>

record field =
  field_name :: string
  field_type :: avro_type
  has_default :: bool
  field_default :: string

text \<open>The schema of one file: a record or an enumeration, with its name and its doc.\<close>

datatype schema =
    RecordSchema string "string option" "field list"
  | EnumSchema string "string option" "string list"

fun schema_name :: "schema \<Rightarrow> string" where
  "schema_name (RecordSchema n d fs) = n"
| "schema_name (EnumSchema n d syms) = n"

fun schema_doc :: "schema \<Rightarrow> string option" where
  "schema_doc (RecordSchema n d fs) = d"
| "schema_doc (EnumSchema n d syms) = d"

text \<open>
  One \<open>.avsc\<close> file as \<open>glob\<close> finds it: its path, its contents, and what
  \<open>avro.schema.parse\<close> makes of the contents (a schema, or the exception it raises).
\<close>

record avsc =
  path :: string
  contents :: string
  parses_to :: "error + schema"

record SchemaClass =
  sourceFile :: string
  schemaSource :: string
  schema :: schema
  name :: string

definition SchemaClass_init :: "avsc \<Rightarrow> error + SchemaClass" where
  "SchemaClass_init a =
     (case parses_to a of
        Inl e \<Rightarrow> Inl e
      | Inr s \<Rightarrow> Inr \<lparr>sourceFile = path a, schemaSource = contents a,
                       schema = s, name = schema_name s\<rparr>)"

subsection \<open>Classification by name\<close>

definition newline :: string where
  "newline = [CHR 0x0A]"

text \<open>
  \<open>match_group_at pre post s\<close> is the group of \<open>pre(.+)post\<close> matched at the start of
  \<open>s\<close>: the dot takes no newline and the group is greedy, so it ends where the last
  \<open>post\<close> of the line begins. \<open>re_search_group\<close> is \<open>re.search\<close>: the leftmost start.
\<close>

definition match_group_at :: "string \<Rightarrow> string \<Rightarrow> string \<Rightarrow> string option" where
  "match_group_at pre post s =
     (if take (length pre) s = pre then
        (let line = takeWhile (\<lambda>c. c \<noteq> CHR 0x0A) (drop (length pre) s);
             ks = filter (\<lambda>k. take (length post) (drop k line) = post)
                    (rev [1..<length line])
         in case ks of [] \<Rightarrow> None | k # _ \<Rightarrow> Some (take k line))
      else None)"

fun re_search_group :: "string \<Rightarrow> string \<Rightarrow> string \<Rightarrow> string option" where
  "re_search_group pre post [] = match_group_at pre post []"
| "re_search_group pre post (c # cs) =
     (case match_group_at pre post (c # cs) of
        Some g \<Rightarrow> Some g
      | None \<Rightarrow> re_search_group pre post cs)"

definition isSearchRequest :: "SchemaClass \<Rightarrow> bool" where
  "isSearchRequest c = (re_search_group ''Search'' ''Request'' (name c) \<noteq> None)"

definition isSearchResponse :: "SchemaClass \<Rightarrow> bool" where
  "isSearchResponse c = (re_search_group ''Search'' ''Response'' (name c) \<noteq> None)"

subsection \<open>Fields, the value list and the embedded types\<close>

text \<open>\<open>sorted(self.schema.fields, key=...)\<close>; an enumeration has no attribute \<open>fields\<close>.\<close>

definition getFields :: "SchemaClass \<Rightarrow> error + field list" where
  "getFields c =
     (case schema c of
        RecordSchema n d fs \<Rightarrow> Inr (sort_key field_name fs)
      | EnumSchema n d syms \<Rightarrow> Inl AttributeError)"

definition getValueListName :: "SchemaClass \<Rightarrow> error + string" where
  "getValueListName c =
     (if \<not> isSearchResponse c then Inl AssertionError
      else case getFields c of
        Inl e \<Rightarrow> Inl e
      | Inr fs \<Rightarrow>
          (let names = map field_name fs in
           if ''next_page_token'' \<notin> set names then Inl ValueError
           else case remove1 ''next_page_token'' names of
                  [x] \<Rightarrow> Inr x
                | _ \<Rightarrow> Inl AssertionError))"

text \<open>\<open>schemas[i]\<close> of a union: an index past the end raises.\<close>

definition branch :: "avro_type list \<Rightarrow> nat \<Rightarrow> error + avro_type" where
  "branch bs i = (if i < length bs then Inr (bs ! i) else Inl IndexError)"

text \<open>
  The body of the loop of \<open>getEmbeddedTypes\<close> for one field: the pair it appends to
  \<open>ret\<close>, if any, or the exception it raises.
\<close>

definition embeddedEdge :: "field \<Rightarrow> error + (string \<times> string) option" where
  "embeddedEdge f =
     (case field_type f of
        ArraySchema items \<Rightarrow>
          (case items of
             RecordType n \<Rightarrow> Inr (Some (field_name f, n))
           | _ \<Rightarrow> Inr None)
      | RecordType n \<Rightarrow> Inr (Some (field_name f, n))
      | UnionSchema bs \<Rightarrow>
          (case branch bs 0 of
             Inl e \<Rightarrow> Inl e
           | Inr t0 \<Rightarrow>
               (case branch bs 1 of
                  Inl e \<Rightarrow> Inl e
                | Inr t1 \<Rightarrow>
                    if t0 = PrimitiveSchema ''null'' then
                      (case t1 of
                         RecordType n \<Rightarrow> Inr (Some (field_name f, n))
                       | _ \<Rightarrow> Inr None)
                    else Inl UnionAssumptionsViolated))
      | _ \<Rightarrow> Inr None)"

fun embeddedLoop ::
  "field list \<Rightarrow> (string \<times> string) list \<Rightarrow> error + (string \<times> string) list" where
  "embeddedLoop [] ret = Inr ret"
| "embeddedLoop (f # fs) ret =
     (case embeddedEdge f of
        Inl e \<Rightarrow> Inl e
      | Inr None \<Rightarrow> embeddedLoop fs ret
      | Inr (Some p) \<Rightarrow> embeddedLoop fs (ret @ [p]))"

definition getEmbeddedTypes :: "SchemaClass \<Rightarrow> error + (string \<times> string) list" where
  "getEmbeddedTypes c =
     (case schema c of
        RecordSchema n d fs \<Rightarrow> embeddedLoop (sort_key field_name fs) []
      | EnumSchema n d syms \<Rightarrow> Inr [])"

text \<open>
  The two class methods of a generated class, over the dictionary \<open>embeddedTypes\<close> that
  the class body spells out: in a dictionary display a later pair replaces an earlier
  one with the same key.
\<close>

definition isEmbeddedType :: "(string \<times> string) list \<Rightarrow> string \<Rightarrow> bool" where
  "isEmbeddedType embeddedTypes fieldName = (fieldName \<in> fst ` set embeddedTypes)"

definition getEmbeddedType :: "(string \<times> string) list \<Rightarrow> string \<Rightarrow> error + string" where
  "getEmbeddedType embeddedTypes fieldName =
     (case map_of (rev embeddedTypes) fieldName of
        None \<Rightarrow> Inl KeyError
      | Some t \<Rightarrow> Inr t)"

subsection \<open>Writing to the output file\<close>

text \<open>
  The output file is its contents so far. A writer takes the contents and returns the
  contents it leaves, with the exception that stopped it, if any: what was written before
  an exception stays written.
\<close>

type_synonym writer = "string \<Rightarrow> string \<times> error option"

definition emit :: "string \<Rightarrow> writer" where
  "emit s out = (out @ s, None)"

definition print :: "string \<Rightarrow> writer" where
  "print s = emit (s @ newline)"

definition raise :: "error \<Rightarrow> writer" where
  "raise e out = (out, Some e)"

fun seqs :: "writer list \<Rightarrow> writer" where
  "seqs [] out = (out, None)"
| "seqs (w # ws) out =
     (case w out of
        (out', None) \<Rightarrow> seqs ws out'
      | (out', Some e) \<Rightarrow> (out', Some e))"

text \<open>A value that is computed before it is written: its exception stops the writer.\<close>

definition eval_then :: "error + 'a \<Rightarrow> ('a \<Rightarrow> writer) \<Rightarrow> writer" where
  "eval_then r k = (case r of Inl e \<Rightarrow> raise e | Inr v \<Rightarrow> k v)"

text \<open>
  Two functions of the Python library are parameters of the model: \<open>fill indent text\<close>
  is \<open>textwrap.fill(text, initial_indent=indent, subsequent_indent=indent)\<close>, and
  \<open>format_source\<close> is what \<open>formatSchema\<close> computes from the schema source with
  \<open>json\<close> and \<open>textwrap.wrap\<close>.
\<close>

record textlib =
  fill :: "string \<Rightarrow> string \<Rightarrow> string"
  format_source :: "string \<Rightarrow> string"

definition dquote :: string where
  "dquote = [CHR 0x22]"

definition squote :: string where
  "squote = [CHR 0x27]"

definition backslash :: string where
  "backslash = [CHR 0x5C]"

definition indent :: "nat \<Rightarrow> string" where
  "indent indentLevel = replicate (indentLevel * 4) CHR '' ''"

definition writeWithIndent :: "string \<Rightarrow> nat \<Rightarrow> writer" where
  "writeWithIndent text indentLevel = print (indent indentLevel @ text)"

definition writeWrappedWithIndent :: "textlib \<Rightarrow> string \<Rightarrow> nat \<Rightarrow> writer" where
  "writeWrappedWithIndent L text indentLevel =
     print (fill L (indent indentLevel) text)"

definition writeNewline :: "nat \<Rightarrow> writer" where
  "writeNewline numNewlines = print (concat (replicate (numNewlines - 1) newline))"

definition formatSchema :: "textlib \<Rightarrow> SchemaClass \<Rightarrow> string" where
  "formatSchema L c = format_source L (schemaSource c)"

fun join :: "string \<Rightarrow> string list \<Rightarrow> string" where
  "join sep [] = []"
| "join sep [x] = x"
| "join sep (x # y # ys) = x @ sep @ join sep (y # ys)"

subsection \<open>Writing one class\<close>

definition writeRequiredFields :: "SchemaClass \<Rightarrow> writer" where
  "writeRequiredFields c =
     eval_then (getFields c) (\<lambda>fs.
       let fields = filter (\<lambda>f. \<not> has_default f) fs in
       if length fields < 1 then writeWithIndent ''requiredFields = set([])'' 1
       else seqs
         ([writeWithIndent ''requiredFields = set(['' 1] @
          map (\<lambda>f. writeWithIndent (dquote @ field_name f @ dquote @ '','') 2) fields @
          [writeWithIndent ''])'' 1]))"

definition writeConstructor :: "textlib \<Rightarrow> SchemaClass \<Rightarrow> writer" where
  "writeConstructor L c =
     eval_then (getFields c) (\<lambda>fs.
       let slotString = squote @ join (squote @ '', '' @ squote) (map field_name fs) @ squote in
       seqs
         ([writeWithIndent ''__slots__ = ['' 1,
           writeWrappedWithIndent L slotString 2,
           writeWithIndent '']'' 1,
           writeNewline 1,
           writeWithIndent ''def __init__(self):'' 1] @
          map (\<lambda>f. writeWithIndent
                 (''self.'' @ field_name f @ '' = '' @ field_default f) 2) fs))"

text \<open>The local function \<open>writeEmbeddedTypes\<close>, which calls \<open>getEmbeddedTypes\<close> twice.\<close>

definition writeEmbeddedTypes :: "SchemaClass \<Rightarrow> writer" where
  "writeEmbeddedTypes c =
     eval_then (getEmbeddedTypes c) (\<lambda>et.
       if length et = 0 then writeWithIndent ''embeddedTypes = {}'' 2
       else seqs
         [writeWithIndent ''embeddedTypes = {'' 2,
          eval_then (getEmbeddedTypes c) (\<lambda>et'.
            seqs (map (\<lambda>(fn, ft).
                    writeWithIndent (squote @ fn @ squote @ '': '' @ ft @ '','') 3) et')),
          writeWithIndent ''}'' 2])"

definition writeEmbeddedTypesClassMethods :: "SchemaClass \<Rightarrow> writer" where
  "writeEmbeddedTypesClassMethods c =
     seqs
       [writeWithIndent ''@classmethod'' 1,
        writeWithIndent ''def isEmbeddedType(cls, fieldName):'' 1,
        writeEmbeddedTypes c,
        writeWithIndent ''return fieldName in embeddedTypes'' 2,
        writeNewline 1,
        writeWithIndent ''@classmethod'' 1,
        writeWithIndent ''def getEmbeddedType(cls, fieldName):'' 1,
        writeEmbeddedTypes c,
        writeNewline 1,
        writeWithIndent ''return embeddedTypes[fieldName]'' 2,
        writeNewline 1]"

definition superclass :: "SchemaClass \<Rightarrow> string" where
  "superclass c =
     (case schema c of
        EnumSchema n d syms \<Rightarrow> ''object''
      | RecordSchema n d fs \<Rightarrow>
          if isSearchRequest c then ''SearchRequest''
          else if isSearchResponse c then ''SearchResponse''
          else ''ProtocolElement'')"

definition SchemaClass_write :: "textlib \<Rightarrow> SchemaClass \<Rightarrow> writer" where
  "SchemaClass_write L c =
     seqs
       ([writeNewline 2,
         print (''class '' @ schema_name (schema c) @ ''('' @ superclass c @ ''):''),
         writeWithIndent (dquote @ dquote @ dquote) 1,
         writeWrappedWithIndent L
           (case schema_doc (schema c) of None \<Rightarrow> ''No documentation'' | Some doc \<Rightarrow> doc) 1,
         writeWithIndent (dquote @ dquote @ dquote) 1] @
        (case schema c of
           RecordSchema n d fs \<Rightarrow>
             [writeWithIndent
                (''_schemaSource = '' @ dquote @ dquote @ dquote @ newline @
                 formatSchema L c @ dquote @ dquote @ dquote) 1,
              writeWithIndent ''schema = avro.schema.parse(_schemaSource)'' 1,
              writeRequiredFields c,
              (if isSearchResponse c then
                 eval_then (getValueListName c) (\<lambda>v.
                   writeWithIndent (''_valueListName = '' @ dquote @ v @ dquote) 1)
               else seqs []),
              writeNewline 1,
              writeEmbeddedTypesClassMethods c,
              writeConstructor L c]
         | EnumSchema n d syms \<Rightarrow>
             map (\<lambda>symbol. writeWithIndent (symbol @ '' = '' @ dquote @ symbol @ dquote) 1)
               syms))"

subsection \<open>The generator\<close>

text \<open>\<open>str.lower\<close> on the characters of a type name (Avro names are ASCII).\<close>

definition lower_char :: "char \<Rightarrow> char" where
  "lower_char c =
     (case map_of (zip ''ABCDEFGHIJKLMNOPQRSTUVWXYZ'' ''abcdefghijklmnopqrstuvwxyz'') c of
        Some l \<Rightarrow> l
      | None \<Rightarrow> c)"

definition lower :: "string \<Rightarrow> string" where
  "lower s = map lower_char s"

type_synonym signature = "string \<times> string \<times> string"

record SchemaGenerator =
  version :: string
  classes :: "SchemaClass list"
  postSignatures :: "signature list"

text \<open>The loop over the files of the directory, in the order \<open>glob\<close> lists them.\<close>

fun collect :: "avsc list \<Rightarrow> error + SchemaClass list" where
  "collect [] = Inr []"
| "collect (a # as) =
     (case SchemaClass_init a of
        Inl e \<Rightarrow> Inl e
      | Inr c \<Rightarrow> (case collect as of Inl e \<Rightarrow> Inl e | Inr cs \<Rightarrow> Inr (c # cs)))"

text \<open>
  The body of the loop over the zipped names: \<open>re.search\<close> returns \<open>None\<close> when
  nothing matches, and \<open>None\<close> has no \<open>groups\<close>.
\<close>

definition postSignature :: "string \<times> string \<Rightarrow> error + signature" where
  "postSignature p =
     (case p of (request, response) \<Rightarrow>
        (case re_search_group ''Search'' ''Request'' request of
           None \<Rightarrow> Inl AttributeError
         | Some objname \<Rightarrow> Inr (''/'' @ lower objname @ ''/search'', request, response)))"

fun signatureLoop :: "(string \<times> string) list \<Rightarrow> error + signature list" where
  "signatureLoop [] = Inr []"
| "signatureLoop (p # ps) =
     (case postSignature p of
        Inl e \<Rightarrow> Inl e
      | Inr t \<Rightarrow> (case signatureLoop ps of Inl e \<Rightarrow> Inl e | Inr ts \<Rightarrow> Inr (t # ts)))"

definition requestClassNames :: "SchemaClass list \<Rightarrow> string list" where
  "requestClassNames cs = map name (filter isSearchRequest cs)"

definition responseClassNames :: "SchemaClass list \<Rightarrow> string list" where
  "responseClassNames cs = map name (filter isSearchResponse cs)"

definition SchemaGenerator_init :: "string \<Rightarrow> avsc list \<Rightarrow> error + SchemaGenerator" where
  "SchemaGenerator_init v files =
     (case collect files of
        Inl e \<Rightarrow> Inl e
      | Inr cs \<Rightarrow>
          (case signatureLoop (zip (requestClassNames cs) (responseClassNames cs)) of
             Inl e \<Rightarrow> Inl e
           | Inr sigs \<Rightarrow>
               Inr \<lparr>version = v, classes = cs, postSignatures = sort sigs\<rparr>))"

definition HEADER_COMMENT :: string where
  "HEADER_COMMENT =
     newline @ ''DO NOT EDIT THIS FILE!!'' @ newline @
     ''This file is automatically generated by the process_schemas.py program'' @ newline @
     ''in the scripts directory. It is not intended to be edited directly. If'' @ newline @
     ''you need to update the GA4GH protocol classes, please run the script'' @ newline @
     ''on the appropriate schema version.'' @ newline"

definition writeHeader :: "SchemaGenerator \<Rightarrow> writer" where
  "writeHeader sg =
     seqs
       [print (dquote @ dquote @ dquote @ HEADER_COMMENT @ dquote @ dquote @ dquote),
        print ''from protocol import ProtocolElement'',
        print ''from protocol import SearchRequest'',
        print ''from protocol import SearchResponse'',
        print [],
        print ''import avro.schema'',
        print [],
        (case version sg of
           [] \<Rightarrow> raise IndexError
         | c # cs \<Rightarrow>
             (let versionStr =
                    (if lower_char c = CHR ''v'' \<and> CHR ''.'' \<in> set (version sg)
                     then cs else version sg)
              in print (''version = '' @ squote @ versionStr @ squote)))]"

text \<open>
  The classes by name, as the dictionary \<open>classes\<close> of \<open>write\<close> holds them: of two
  classes with one name the later one stays.
\<close>

definition classesByName :: "SchemaClass list \<Rightarrow> string \<Rightarrow> SchemaClass option" where
  "classesByName cs = map_of (rev (map (\<lambda>c. (name c, c)) cs))"

definition writeClasses :: "textlib \<Rightarrow> SchemaGenerator \<Rightarrow> writer" where
  "writeClasses L sg =
     (let names = map name (classes sg);
          d = classesByName (classes sg)
      in seqs (map (\<lambda>n. case d n of
                          None \<Rightarrow> raise KeyError
                        | Some c \<Rightarrow> SchemaClass_write L c)
                 (sort names)))"

definition writeSignature :: "nat \<Rightarrow> nat \<times> signature \<Rightarrow> writer" where
  "writeSignature len p =
     (case p of (i, url, request, response) \<Rightarrow>
        seqs
          [(if i \<noteq> 0 then emit (''     ('' @ squote) else seqs []),
           emit url,
           emit (squote @ '','' @ newline @ ''      ''),
           emit request,
           emit ('','' @ newline @ ''      ''),
           emit response,
           emit '')'',
           (if int i = int len - 1 then emit ('']'' @ newline)
            else emit ('','' @ newline))])"

definition writePostMethods :: "SchemaGenerator \<Rightarrow> writer" where
  "writePostMethods sg =
     seqs
       (emit (newline @ ''postMethods = '' @ backslash @ newline @ ''    [('' @ squote) #
        map (writeSignature (length (postSignatures sg)))
          (enumerate 0 (postSignatures sg)))"

text \<open>\<open>SchemaGenerator.write\<close>: the file is opened for writing, so it starts empty.\<close>

definition SchemaGenerator_write :: "textlib \<Rightarrow> SchemaGenerator \<Rightarrow> string \<times> error option" where
  "SchemaGenerator_write L sg =
     seqs [writeHeader sg, writeClasses L sg, writePostMethods sg] []"

text \<open>
  The last two statements of \<open>SchemaProcessor.run\<close>, on the output file as it was
  (\<open>None\<close> when there is none): the file as the run leaves it, and the exception that
  ended the run, if any.
\<close>

definition generate ::
  "textlib \<Rightarrow> string \<Rightarrow> avsc list \<Rightarrow> string option \<Rightarrow> string option \<times> error option" where
  "generate L v files old =
     (case SchemaGenerator_init v files of
        Inl e \<Rightarrow> (old, Some e)
      | Inr sg \<Rightarrow>
          (case SchemaGenerator_write L sg of (out, r) \<Rightarrow> (Some out, r)))"

subsection \<open>Example inputs\<close>

text \<open>
  The class of a schema and the file it is read from, for the examples: the source text
  is abridged to the name, since only \<open>formatSchema\<close> reads it.
\<close>

definition source_of :: "schema \<Rightarrow> string" where
  "source_of s = ''{'' @ dquote @ ''name'' @ dquote @ '': '' @ dquote @ schema_name s @ dquote @ ''}''"

definition class_of :: "schema \<Rightarrow> SchemaClass" where
  "class_of s =
     \<lparr>sourceFile = schema_name s @ ''.avsc'', schemaSource = source_of s,
      schema = s, name = schema_name s\<rparr>"

definition file_of :: "schema \<Rightarrow> avsc" where
  "file_of s =
     \<lparr>path = schema_name s @ ''.avsc'', contents = source_of s, parses_to = Inr s\<rparr>"

definition nullable_string :: avro_type where
  "nullable_string = UnionSchema [PrimitiveSchema ''null'', PrimitiveSchema ''string'']"

definition SearchVariantsRequest :: schema where
  "SearchVariantsRequest =
     RecordSchema ''SearchVariantsRequest'' None
       [\<lparr>field_name = ''reference_name'', field_type = PrimitiveSchema ''string'',
         has_default = False, field_default = ''None''\<rparr>,
        \<lparr>field_name = ''page_token'', field_type = nullable_string,
         has_default = True, field_default = ''None''\<rparr>]"

definition SearchVariantsResponse :: schema where
  "SearchVariantsResponse =
     RecordSchema ''SearchVariantsResponse'' None
       [\<lparr>field_name = ''variants'', field_type = ArraySchema (RecordType ''Variant''),
         has_default = True, field_default = ''[]''\<rparr>,
        \<lparr>field_name = ''next_page_token'', field_type = nullable_string,
         has_default = True, field_default = ''None''\<rparr>]"

definition SearchReadsRequest :: schema where
  "SearchReadsRequest =
     RecordSchema ''SearchReadsRequest'' None
       [\<lparr>field_name = ''read_group_ids'', field_type = ArraySchema (PrimitiveSchema ''string''),
         has_default = True, field_default = ''[]''\<rparr>,
        \<lparr>field_name = ''page_token'', field_type = nullable_string,
         has_default = True, field_default = ''None''\<rparr>]"

definition SearchReadsResponse :: schema where
  "SearchReadsResponse =
     RecordSchema ''SearchReadsResponse'' None
       [\<lparr>field_name = ''next_page_token'', field_type = nullable_string,
         has_default = True, field_default = ''None''\<rparr>,
        \<lparr>field_name = ''alignments'', field_type = ArraySchema (RecordType ''ReadAlignment''),
         has_default = True, field_default = ''[]''\<rparr>]"

text \<open>A field of a given name and type, and the class of a record of given fields.\<close>

definition field_of :: "string \<Rightarrow> avro_type \<Rightarrow> field" where
  "field_of fn t =
     \<lparr>field_name = fn, field_type = t, has_default = True, field_default = ''None''\<rparr>"

definition record_of :: "string \<Rightarrow> field list \<Rightarrow> SchemaClass" where
  "record_of n fs = class_of (RecordSchema n None fs)"

text \<open>
  A text library for the examples, whose texts are short and have no break:
  \<open>textwrap.fill\<close> puts the indent before such a text (and returns the empty string
  for the empty text), and \<open>formatSchema\<close> returns the source on one line.
\<close>

definition oneline :: textlib where
  "oneline =
     \<lparr>fill = (\<lambda>ind text. if text = [] then [] else ind @ text),
      format_source = (\<lambda>src. src @ newline)\<rparr>"


text \<open>Two orders in which \<open>glob\<close> can list the same four files.\<close>

definition enumeration_a :: "avsc list" where
  "enumeration_a =
     [file_of SearchReadsRequest, file_of SearchReadsResponse,
      file_of SearchVariantsRequest, file_of SearchVariantsResponse]"

definition enumeration_b :: "avsc list" where
  "enumeration_b =
     [file_of SearchReadsRequest, file_of SearchVariantsResponse,
      file_of SearchVariantsRequest, file_of SearchReadsResponse]"

text \<open>A search response without the field \<open>next_page_token\<close>, and a file that does not parse.\<close>

definition response_without_token :: schema where
  "response_without_token =
     RecordSchema ''SearchVariantsResponse'' None
       [field_of ''variants'' (ArraySchema (RecordType ''Variant''))]"

definition unparsable :: avsc where
  "unparsable = \<lparr>path = ''Broken.avsc'', contents = ''{'', parses_to = Inl SchemaParseException\<rparr>"

subsection \<open>Writers that only append\<close>

text \<open>
  A writer is appending when what it adds and how it ends do not depend on the
  contents it is given: every writer of the script is.
\<close>

definition appending :: "writer \<Rightarrow> bool" where
  "appending w = (\<forall>out. w out = (out @ fst (w []), snd (w [])))"

text \<open>The first line of the output: the banner.\<close>

definition banner :: string where
  "banner = dquote @ dquote @ dquote @ HEADER_COMMENT @ dquote @ dquote @ dquote @ newline"

section \<open>Properties\<close>

subsection \<open>Embedded types\<close>

lemma embeddedLoop_Inr:
  "embeddedLoop fs ret = Inr et \<longleftrightarrow>
     (\<forall>f \<in> set fs. \<exists>r. embeddedEdge f = Inr r) \<and>
     et = ret @ concat (map (\<lambda>f. case embeddedEdge f of Inr (Some p) \<Rightarrow> [p] | _ \<Rightarrow> []) fs)"
  by (induction fs arbitrary: ret) (auto split: sum.splits option.splits)

lemma embeddedLoop_Inl:
  "embeddedLoop fs ret = Inl e \<Longrightarrow> \<exists>f \<in> set fs. embeddedEdge f = Inl e"
  by (induction fs arbitrary: ret) (auto split: sum.splits option.splits)

lemma embeddedLoop_fails:
  "f \<in> set fs \<Longrightarrow> embeddedEdge f = Inl e \<Longrightarrow> \<exists>e'. embeddedLoop fs ret = Inl e'"
  by (induction fs arbitrary: ret) (auto split: sum.splits option.splits)

lemma embeddedEdge_name:
  "embeddedEdge f = Inr (Some p) \<Longrightarrow> fst p = field_name f"
  by (auto simp: embeddedEdge_def split: avro_type.splits sum.splits if_splits)

lemma embeddedEdge_union:
  assumes "field_type f = UnionSchema bs" "2 \<le> length bs"
  shows "embeddedEdge f =
     (if bs ! 0 = PrimitiveSchema ''null'' then
        (case bs ! 1 of RecordType m \<Rightarrow> Inr (Some (field_name f, m)) | _ \<Rightarrow> Inr None)
      else Inl UnionAssumptionsViolated)"
proof -
  from assms(2) have "0 < length bs" "1 < length bs" by auto
  then show ?thesis using assms(1) by (simp add: embeddedEdge_def branch_def)
qed

lemma embeddedEdge_short_union:
  assumes "field_type f = UnionSchema bs" "length bs < 2"
  shows "embeddedEdge f = Inl IndexError"
  using assms by (auto simp: embeddedEdge_def branch_def)

lemma embeddedEdge_IndexError:
  assumes "embeddedEdge f = Inl IndexError"
  shows "\<exists>bs. field_type f = UnionSchema bs \<and> length bs < 2"
  using assms by (auto simp: embeddedEdge_def branch_def split: avro_type.splits sum.splits if_splits)


lemma getEmbeddedTypes_edge_iff:
  assumes "schema c = RecordSchema n d fs" "getEmbeddedTypes c = Inr et"
    "distinct (map field_name fs)" "f \<in> set fs"
  shows "(field_name f, m) \<in> set et \<longleftrightarrow> embeddedEdge f = Inr (Some (field_name f, m))"
proof
  assume "(field_name f, m) \<in> set et"
  with assms(1,2) obtain g where g: "g \<in> set fs" "embeddedEdge g = Inr (Some (field_name f, m))"
    by (auto simp: getEmbeddedTypes_def embeddedLoop_Inr split: sum.splits option.splits)
  from embeddedEdge_name[OF g(2)] have "field_name g = field_name f" by simp
  with assms(3,4) g(1) have "g = f" by (auto simp: distinct_map dest: inj_onD)
  with g(2) show "embeddedEdge f = Inr (Some (field_name f, m))" by simp
next
  assume "embeddedEdge f = Inr (Some (field_name f, m))"
  with assms(1,2,4) show "(field_name f, m) \<in> set et"
    by (force simp: getEmbeddedTypes_def embeddedLoop_Inr)
qed

lemma getEmbeddedTypes_fails:
  assumes "schema c = RecordSchema n d fs" "f \<in> set fs" "embeddedEdge f = Inl e"
  shows "\<exists>e'. getEmbeddedTypes c = Inl e'"
  using assms embeddedLoop_fails[of f "sort_key field_name fs" e "[]"]
  by (simp add: getEmbeddedTypes_def)

text \<open>
  Claim C1, as the code has it. For a field of a record whose type is a union of at least
  two branches: the loop body yields the edge from the field's name to the second
  branch's name exactly when the first branch is the primitive \<open>null\<close> and the second
  is a record; it raises "Schema union assumptions violated" exactly when the first
  branch is not the primitive \<open>null\<close>; and when the first branch is \<open>null\<close> and the
  second is not a record it yields no edge and raises nothing. So \<open>getEmbeddedTypes\<close>
  fails on a record with a union field whose first branch is not \<open>null\<close>, and when it
  succeeds on a record with distinct field names its result holds the edge of the field
  exactly when the second branch is a record.
\<close>

theorem union_field_resolution:
  assumes "schema c = RecordSchema n d fs" "f \<in> set fs"
    "field_type f = UnionSchema bs" "2 \<le> length bs"
  shows "(embeddedEdge f = Inr (Some (field_name f, m)) \<longleftrightarrow>
            bs ! 0 = PrimitiveSchema ''null'' \<and> bs ! 1 = RecordType m) \<and>
         (embeddedEdge f = Inl UnionAssumptionsViolated \<longleftrightarrow>
            bs ! 0 \<noteq> PrimitiveSchema ''null'') \<and>
         (embeddedEdge f = Inr None \<longleftrightarrow>
            bs ! 0 = PrimitiveSchema ''null'' \<and> (\<forall>k. bs ! 1 \<noteq> RecordType k)) \<and>
         (bs ! 0 \<noteq> PrimitiveSchema ''null'' \<longrightarrow> (\<exists>e. getEmbeddedTypes c = Inl e)) \<and>
         (\<forall>et. getEmbeddedTypes c = Inr et \<and> distinct (map field_name fs) \<longrightarrow>
            bs ! 0 = PrimitiveSchema ''null'' \<and>
            ((field_name f, m) \<in> set et \<longleftrightarrow> bs ! 1 = RecordType m))"
proof -
  note e = embeddedEdge_union[OF assms(3,4)]
  have 1: "embeddedEdge f = Inr (Some (field_name f, m)) \<longleftrightarrow>
            bs ! 0 = PrimitiveSchema ''null'' \<and> bs ! 1 = RecordType m"
    by (auto simp: e split: avro_type.splits)
  have 2: "embeddedEdge f = Inl UnionAssumptionsViolated \<longleftrightarrow>
            bs ! 0 \<noteq> PrimitiveSchema ''null''"
    by (auto simp: e split: avro_type.splits)
  have 3: "embeddedEdge f = Inr None \<longleftrightarrow>
            bs ! 0 = PrimitiveSchema ''null'' \<and> (\<forall>k. bs ! 1 \<noteq> RecordType k)"
    by (auto simp: e split: avro_type.splits)
  have 4: "bs ! 0 \<noteq> PrimitiveSchema ''null'' \<longrightarrow> (\<exists>e. getEmbeddedTypes c = Inl e)"
    using getEmbeddedTypes_fails[OF assms(1,2)] 2 by blast
  have 5: "bs ! 0 = PrimitiveSchema ''null'' \<and>
            ((field_name f, m) \<in> set et \<longleftrightarrow> bs ! 1 = RecordType m)"
    if "getEmbeddedTypes c = Inr et" "distinct (map field_name fs)" for et
  proof -
    from 4 that(1) have n: "bs ! 0 = PrimitiveSchema ''null''" by auto
    with getEmbeddedTypes_edge_iff[OF assms(1) that assms(2)] 1 show ?thesis by simp
  qed
  from 1 2 3 4 5 show ?thesis by blast
qed


theorem union_field_resolution_witness:
  "schema (record_of ''Variant''
       [field_of ''call'' (UnionSchema [PrimitiveSchema ''null'', RecordType ''Call''])]) =
     RecordSchema ''Variant'' None
       [field_of ''call'' (UnionSchema [PrimitiveSchema ''null'', RecordType ''Call''])] \<and>
   2 \<le> length [PrimitiveSchema ''null'', RecordType ''Call''] \<and>
   embeddedEdge (field_of ''call'' (UnionSchema [PrimitiveSchema ''null'', RecordType ''Call''])) =
     Inr (Some (''call'', ''Call'')) \<and>
   getEmbeddedTypes (record_of ''Variant''
       [field_of ''call'' (UnionSchema [PrimitiveSchema ''null'', RecordType ''Call''])]) =
     Inr [(''call'', ''Call'')]"
  using union_field_resolution[of
      "record_of ''Variant''
         [field_of ''call'' (UnionSchema [PrimitiveSchema ''null'', RecordType ''Call''])]"
      "''Variant''" None
      "[field_of ''call'' (UnionSchema [PrimitiveSchema ''null'', RecordType ''Call''])]"
      "field_of ''call'' (UnionSchema [PrimitiveSchema ''null'', RecordType ''Call''])"
      "[PrimitiveSchema ''null'', RecordType ''Call'']" "''Call''"]
  by (simp add: record_of_def class_of_def field_of_def getEmbeddedTypes_def
      embeddedEdge_def branch_def)

text \<open>
  Claim C1 as stated fails: a field of type \<open>Union[null, Array[Record("Call")]]\<close>
  raises nothing; the field is skipped and the record has no embedded type.
\<close>

theorem union_null_array_counterexample:
  "embeddedEdge (field_of ''calls''
       (UnionSchema [PrimitiveSchema ''null'', ArraySchema (RecordType ''Call'')])) = Inr None \<and>
   getEmbeddedTypes (record_of ''Variant''
       [field_of ''calls''
          (UnionSchema [PrimitiveSchema ''null'', ArraySchema (RecordType ''Call'')])]) = Inr []"
  by (simp add: record_of_def class_of_def field_of_def getEmbeddedTypes_def
      embeddedEdge_def branch_def)






lemma getEmbeddedTypes_IndexError:
  assumes "schema c = RecordSchema n d fs" "getEmbeddedTypes c = Inl IndexError"
  shows "\<exists>f \<in> set fs. \<exists>bs. field_type f = UnionSchema bs \<and> length bs < 2"
proof -
  from assms have "embeddedLoop (sort_key field_name fs) [] = Inl IndexError"
    by (simp add: getEmbeddedTypes_def)
  from embeddedLoop_Inl[OF this] obtain f where "f \<in> set fs" "embeddedEdge f = Inl IndexError"
    by auto
  with embeddedEdge_IndexError show ?thesis by blast
qed

text \<open>
  Claim C10. In a record, a field whose type is a union of fewer than two branches makes
  the loop body raise \<open>IndexError\<close> (not the union exception), and
  \<open>getEmbeddedTypes\<close> fails on the record; \<open>getEmbeddedTypes\<close> raises
  \<open>IndexError\<close> only when there is such a field, so it does not when every union of the
  record has at least two branches.
\<close>

theorem short_union_index_error:
  assumes "schema c = RecordSchema n d fs"
  shows "(\<forall>f \<in> set fs. \<forall>bs. field_type f = UnionSchema bs \<and> length bs < 2 \<longrightarrow>
            embeddedEdge f = Inl IndexError \<and> (\<exists>e. getEmbeddedTypes c = Inl e)) \<and>
         (getEmbeddedTypes c = Inl IndexError \<longrightarrow>
            (\<exists>f \<in> set fs. \<exists>bs. field_type f = UnionSchema bs \<and> length bs < 2)) \<and>
         ((\<forall>f \<in> set fs. \<forall>bs. field_type f = UnionSchema bs \<longrightarrow> 2 \<le> length bs) \<longrightarrow>
            getEmbeddedTypes c \<noteq> Inl IndexError)"
proof -
  have 1: "embeddedEdge f = Inl IndexError \<and> (\<exists>e. getEmbeddedTypes c = Inl e)"
    if "f \<in> set fs" "field_type f = UnionSchema bs" "length bs < 2" for f bs
    using embeddedEdge_short_union[OF that(2,3)] getEmbeddedTypes_fails[OF assms that(1)]
    by simp
  have 2: "getEmbeddedTypes c = Inl IndexError \<longrightarrow>
            (\<exists>f \<in> set fs. \<exists>bs. field_type f = UnionSchema bs \<and> length bs < 2)"
    using getEmbeddedTypes_IndexError[OF assms] by blast
  have 3: "(\<forall>f \<in> set fs. \<forall>bs. field_type f = UnionSchema bs \<longrightarrow> 2 \<le> length bs) \<longrightarrow>
            getEmbeddedTypes c \<noteq> Inl IndexError"
    using 2 by fastforce
  from 1 2 3 show ?thesis by blast
qed

theorem short_union_index_error_witness:
  "length [PrimitiveSchema ''null''] < 2 \<and>
   embeddedEdge (field_of ''call'' (UnionSchema [PrimitiveSchema ''null''])) = Inl IndexError \<and>
   getEmbeddedTypes (record_of ''Variant''
       [field_of ''call'' (UnionSchema [PrimitiveSchema ''null''])]) = Inl IndexError \<and>
   getEmbeddedTypes (class_of SearchVariantsResponse) \<noteq> Inl IndexError"
  using short_union_index_error[of
      "record_of ''Variant'' [field_of ''call'' (UnionSchema [PrimitiveSchema ''null''])]"
      "''Variant''" None "[field_of ''call'' (UnionSchema [PrimitiveSchema ''null''])]"]
    short_union_index_error[of "class_of SearchVariantsResponse" "''SearchVariantsResponse''" None
      "[\<lparr>field_name = ''variants'', field_type = ArraySchema (RecordType ''Variant''),
         has_default = True, field_default = ''[]''\<rparr>,
        \<lparr>field_name = ''next_page_token'', field_type = nullable_string,
         has_default = True, field_default = ''None''\<rparr>]"]
  by (simp add: record_of_def class_of_def field_of_def SearchVariantsResponse_def
      nullable_string_def getEmbeddedTypes_def embeddedEdge_def branch_def)

subsection \<open>The value list\<close>

lemma remove1_singleton_iff:
  assumes "a \<in> set xs"
  shows "remove1 a xs = [x] \<longleftrightarrow> length xs = 2 \<and> set xs = {a, x}"
proof
  assume r: "remove1 a xs = [x]"
  from assms have "mset xs = add_mset a (mset (remove1 a xs))" by simp
  with r have m: "mset xs = {#a, x#}" by simp
  then have "size (mset xs) = 2" by simp
  moreover from m have "set_mset (mset xs) = {a, x}" by simp
  ultimately show "length xs = 2 \<and> set xs = {a, x}" by simp
next
  assume h: "length xs = 2 \<and> set xs = {a, x}"
  then obtain p q where xs: "xs = [p, q]"
    by (cases xs; cases "tl xs") auto
  with h show "remove1 a xs = [x]" by (auto simp: doubleton_eq_iff)
qed

text \<open>
  Claim C4. \<open>getValueListName\<close> returns \<open>X\<close> exactly when the class is a search
  response (its name matches \<open>Search.+Response\<close>) and its schema is a record of two
  fields whose names are \<open>next_page_token\<close> and \<open>X\<close>; in every other case it
  raises: a failed assertion (not a search response, or not one name left), the
  \<open>ValueError\<close> of \<open>remove\<close> (no field \<open>next_page_token\<close>), or, for an enumeration,
  the missing attribute \<open>fields\<close>. These exceptions are what the specification calls
  ResponseShapeError.
\<close>

theorem getValueListName_iff:
  "(getValueListName c = Inr X \<longleftrightarrow>
      isSearchResponse c \<and>
      (\<exists>n d fs. schema c = RecordSchema n d fs \<and> length fs = 2 \<and>
         field_name ` set fs = {''next_page_token'', X})) \<and>
   ((\<exists>Y. getValueListName c = Inr Y) \<or>
    (\<exists>e. getValueListName c = Inl e \<and>
       (e = AssertionError \<or> e = ValueError \<or> e = AttributeError)))"
proof -
  have 1: "getValueListName c = Inr X \<longleftrightarrow>
      isSearchResponse c \<and>
      (\<exists>n d fs. schema c = RecordSchema n d fs \<and> length fs = 2 \<and>
         field_name ` set fs = {''next_page_token'', X})"
  proof (cases "schema c")
    case (RecordSchema n d fs)
    let ?names = "map field_name (sort_key field_name fs)"
    have s: "set ?names = field_name ` set fs" "length ?names = length fs" by simp_all
    show ?thesis
    proof (cases "''next_page_token'' \<in> set ?names")
      case True
      have "getValueListName c = Inr X \<longleftrightarrow>
              isSearchResponse c \<and> remove1 ''next_page_token'' ?names = [X]"
        using True RecordSchema
        by (auto simp: getValueListName_def getFields_def Let_def split: list.splits)
      also have "\<dots> \<longleftrightarrow> isSearchResponse c \<and> length fs = 2 \<and>
              field_name ` set fs = {''next_page_token'', X}"
        using remove1_singleton_iff[OF True, of X] s by simp
      finally show ?thesis using RecordSchema by simp
    next
      case False
      then have "field_name ` set fs \<noteq> {''next_page_token'', X}" using s by auto
      with False RecordSchema show ?thesis
        by (auto simp: getValueListName_def getFields_def Let_def)
    qed
  next
    case (EnumSchema n d syms)
    then show ?thesis by (simp add: getValueListName_def getFields_def)
  qed
  have 2: "(\<exists>Y. getValueListName c = Inr Y) \<or>
    (\<exists>e. getValueListName c = Inl e \<and>
       (e = AssertionError \<or> e = ValueError \<or> e = AttributeError))"
    by (auto simp: getValueListName_def getFields_def Let_def
        split: schema.splits list.splits)
  from 1 2 show ?thesis by simp
qed


subsection \<open>Required fields\<close>

lemma seqs_prints:
  "seqs (map print ls) out = (out @ concat (map (\<lambda>l. l @ newline) ls), None)"
  by (induction ls arbitrary: out) (simp_all add: print_def emit_def)


text \<open>
  Claim C7. For a record, the names that \<open>writeRequiredFields\<close> writes are exactly the
  names of the fields without a default: the lines written are the opening line, one
  quoted name per such field, and the closing line (or the one line of the empty set).
\<close>

theorem required_fields:
  assumes "schema c = RecordSchema n d fs"
  shows "set (map field_name (filter (\<lambda>f. \<not> has_default f) (sort_key field_name fs))) =
           {field_name f | f. f \<in> set fs \<and> \<not> has_default f} \<and>
         writeRequiredFields c out =
           (out @ concat (map (\<lambda>l. l @ newline)
              (if filter (\<lambda>f. \<not> has_default f) (sort_key field_name fs) = []
               then [indent 1 @ ''requiredFields = set([])'']
               else [indent 1 @ ''requiredFields = set([''] @
                    map (\<lambda>f. indent 2 @ dquote @ field_name f @ dquote @ '','')
                      (filter (\<lambda>f. \<not> has_default f) (sort_key field_name fs)) @
                    [indent 1 @ ''])''])), None)"
proof -
  let ?fields = "filter (\<lambda>f. \<not> has_default f) (sort_key field_name fs)"
  have 1: "set (map field_name ?fields) = {field_name f | f. f \<in> set fs \<and> \<not> has_default f}"
    by auto
  have w: "[writeWithIndent ''requiredFields = set(['' 1] @
          map (\<lambda>f. writeWithIndent (dquote @ field_name f @ dquote @ '','') 2) ?fields @
          [writeWithIndent ''])'' 1] =
        map print ([indent 1 @ ''requiredFields = set([''] @
                      map (\<lambda>f. indent 2 @ dquote @ field_name f @ dquote @ '','') ?fields @
                      [indent 1 @ ''])''])"
    by (simp add: writeWithIndent_def comp_def)
  have 2: "writeRequiredFields c out =
             (out @ concat (map (\<lambda>l. l @ newline)
                (if ?fields = [] then [indent 1 @ ''requiredFields = set([])'']
                 else [indent 1 @ ''requiredFields = set([''] @
                      map (\<lambda>f. indent 2 @ dquote @ field_name f @ dquote @ '','') ?fields @
                      [indent 1 @ ''])''])), None)"
  proof (cases "?fields = []")
    case True
    then show ?thesis using assms
      by (simp add: writeRequiredFields_def getFields_def eval_then_def
          writeWithIndent_def print_def emit_def)
  next
    case False
    then have "\<not> length ?fields < 1" by (cases ?fields) simp_all
    with False assms show ?thesis
      unfolding writeRequiredFields_def getFields_def eval_then_def Let_def
      by (simp only: schema.case sum.case if_False w seqs_prints)
  qed
  from 1 2 show ?thesis by (rule conjI)
qed

theorem required_fields_witness:
  "schema (class_of SearchVariantsRequest) =
     RecordSchema ''SearchVariantsRequest'' None
       [\<lparr>field_name = ''reference_name'', field_type = PrimitiveSchema ''string'',
         has_default = False, field_default = ''None''\<rparr>,
        \<lparr>field_name = ''page_token'', field_type = nullable_string,
         has_default = True, field_default = ''None''\<rparr>] \<and>
   writeRequiredFields (class_of SearchVariantsRequest) [] =
     (indent 1 @ ''requiredFields = set(['' @ newline @
      indent 2 @ dquote @ ''reference_name'' @ dquote @ '','' @ newline @
      indent 1 @ ''])'' @ newline, None)"
  using required_fields[of "class_of SearchVariantsRequest" "''SearchVariantsRequest''" None
      "[\<lparr>field_name = ''reference_name'', field_type = PrimitiveSchema ''string'',
         has_default = False, field_default = ''None''\<rparr>,
        \<lparr>field_name = ''page_token'', field_type = nullable_string,
         has_default = True, field_default = ''None''\<rparr>]" "[]"]
  by (simp add: class_of_def SearchVariantsRequest_def)

subsection \<open>The order of emission\<close>

lemma insort_map: "insort (f a) (map f ys) = map f (insort_key f a ys)"
  by (induction ys) auto

lemma sort_map: "sort (map f xs) = map f (sort_key f xs)"
proof (induction xs)
  case Nil
  show ?case by simp
next
  case (Cons a xs)
  have "sort (map f (a # xs)) = insort (f a) (sort (map f xs))" by simp
  also have "\<dots> = insort (f a) (map f (sort_key f xs))" by (simp only: Cons.IH)
  also have "\<dots> = map f (insort_key f a (sort_key f xs))" by (rule insort_map)
  finally show ?case by simp
qed

lemma classesByName_Some:
  assumes "distinct (map name cs)" "c \<in> set cs"
  shows "classesByName cs (name c) = Some c"
proof -
  have "distinct (map fst (rev (map (\<lambda>c. (name c, c)) cs)))"
    using assms(1) by (simp add: rev_map[symmetric] comp_def)
  moreover have "(name c, c) \<in> set (rev (map (\<lambda>c. (name c, c)) cs))"
    using assms(2) by auto
  ultimately show ?thesis unfolding classesByName_def by (rule map_of_is_SomeI)
qed


lemma sort_key_permutation:
  assumes "distinct (map f xs)" "mset ys = mset xs"
  shows "sort_key f ys = sort_key f xs"
proof -
  from assms(1) have "inj_on f (set xs)" by (simp add: distinct_map)
  moreover from assms(2) have "set ys = set xs" by (rule mset_eq_setD)
  ultimately show ?thesis using assms(2) by (intro sort_key_eq_sort_key) simp_all
qed



lemma writeClasses_sorted:
  assumes "distinct (map name (classes sg))"
  shows "writeClasses L sg = seqs (map (SchemaClass_write L) (sort_key name (classes sg)))"
proof -
  let ?cs = "classes sg"
  let ?w = "\<lambda>n. case classesByName ?cs n of None \<Rightarrow> raise KeyError
                  | Some c \<Rightarrow> SchemaClass_write L c"
  have "?w (name c) = SchemaClass_write L c" if "c \<in> set (sort_key name ?cs)" for c
  proof -
    from that have "c \<in> set ?cs" by simp
    from classesByName_Some[OF assms this] show ?thesis by simp
  qed
  then have m: "map (\<lambda>c. ?w (name c)) (sort_key name ?cs) =
        map (SchemaClass_write L) (sort_key name ?cs)"
    by (intro map_cong refl)
  have "writeClasses L sg = seqs (map ?w (sort (map name ?cs)))"
    by (simp only: writeClasses_def Let_def)
  also have "sort (map name ?cs) = map name (sort_key name ?cs)" by (rule sort_map)
  also have "map ?w (map name (sort_key name ?cs)) = map (\<lambda>c. ?w (name c)) (sort_key name ?cs)"
    by (simp only: map_map comp_def)
  finally show ?thesis by (simp only: m)
qed





subsection \<open>The endpoint table\<close>





lemma signatureLoop_succeeds:
  assumes "\<forall>p \<in> set ps. re_search_group ''Search'' ''Request'' (fst p) \<noteq> None"
  shows "\<exists>ts. signatureLoop ps = Inr ts"
  using assms
  by (induction ps) (auto simp: postSignature_def split: prod.splits option.splits)







subsection \<open>Writers\<close>

lemma appendingI: "(\<And>out. w out = (out @ t, r)) \<Longrightarrow> appending w"
  by (simp add: appending_def)

lemma appendingD: "appending w \<Longrightarrow> w out = (out @ fst (w []), snd (w []))"
  unfolding appending_def by blast

lemma appending_emit: "appending (emit s)"
  by (rule appendingI) (simp add: emit_def)

lemma appending_print: "appending (print s)"
  by (simp add: print_def appending_emit)

lemma appending_raise: "appending (raise e)"
  by (rule appendingI[where t = "[]"]) (simp add: raise_def)

lemma seqs_Cons_appending:
  assumes "appending w"
  shows "seqs (w # ws) out =
     (if snd (w []) = None then seqs ws (out @ fst (w [])) else (out @ fst (w []), snd (w [])))"
  using appendingD[OF assms, of out] by (auto split: option.splits)

lemma appending_seqs:
  "(\<And>w. w \<in> set ws \<Longrightarrow> appending w) \<Longrightarrow> appending (seqs ws)"
proof (induction ws)
  case Nil
  show ?case by (rule appendingI[where t = "[]"]) simp
next
  case (Cons w ws)
  have w: "appending w" by (rule Cons.prems) simp
  have ws: "appending (seqs ws)" by (rule Cons.IH) (simp add: Cons.prems)
  show ?case
  proof (cases "snd (w []) = None")
    case True
    have "seqs (w # ws) out = (out @ (fst (w []) @ fst (seqs ws [])), snd (seqs ws []))" for out
      unfolding seqs_Cons_appending[OF w]
      using True appendingD[OF ws, of "out @ fst (w [])"] by simp
    then show ?thesis by (rule appendingI)
  next
    case False
    have "seqs (w # ws) out = (out @ fst (w []), snd (w []))" for out
      unfolding seqs_Cons_appending[OF w] using False by auto
    then show ?thesis by (rule appendingI)
  qed
qed

lemma appending_eval_then:
  "(\<And>v. appending (k v)) \<Longrightarrow> appending (eval_then r k)"
  by (cases r) (simp_all add: eval_then_def appending_raise)

lemma appending_writeWithIndent: "appending (writeWithIndent s n)"
  by (simp add: writeWithIndent_def appending_print)

lemma appending_writeWrappedWithIndent: "appending (writeWrappedWithIndent L s n)"
  by (simp add: writeWrappedWithIndent_def appending_print)

lemma appending_writeNewline: "appending (writeNewline n)"
  by (simp add: writeNewline_def appending_print)

lemmas appending_basic =
  appending_emit appending_print appending_raise appending_writeWithIndent
  appending_writeWrappedWithIndent appending_writeNewline

lemma appending_writeRequiredFields: "appending (writeRequiredFields c)"
  unfolding writeRequiredFields_def Let_def
  by (intro appending_eval_then) (auto intro!: appending_seqs simp: appending_basic)

lemma appending_writeConstructor: "appending (writeConstructor L c)"
  unfolding writeConstructor_def Let_def
  by (intro appending_eval_then appending_seqs) (auto simp: appending_basic)

lemma appending_writeEmbeddedTypes: "appending (writeEmbeddedTypes c)"
  unfolding writeEmbeddedTypes_def
  by (intro appending_eval_then)
    (auto intro!: appending_seqs appending_eval_then simp: appending_basic)

lemma appending_writeEmbeddedTypesClassMethods:
  "appending (writeEmbeddedTypesClassMethods c)"
  unfolding writeEmbeddedTypesClassMethods_def
  by (intro appending_seqs) (auto simp: appending_basic appending_writeEmbeddedTypes)

lemma appending_SchemaClass_write: "appending (SchemaClass_write L c)"
  unfolding SchemaClass_write_def
  by (intro appending_seqs)
    (auto simp: appending_basic appending_writeRequiredFields
      appending_writeEmbeddedTypesClassMethods appending_writeConstructor
      intro!: appending_eval_then appending_seqs split: schema.splits)

lemma appending_writeHeader: "appending (writeHeader sg)"
  unfolding writeHeader_def Let_def
  by (intro appending_seqs) (auto simp: appending_basic split: list.splits)

lemma appending_writeClasses: "appending (writeClasses L sg)"
  unfolding writeClasses_def Let_def
  by (intro appending_seqs)
    (auto simp: appending_basic appending_SchemaClass_write split: option.splits)

lemma appending_writeSignature: "appending (writeSignature len p)"
  unfolding writeSignature_def
  by (auto intro!: appending_seqs simp: appending_basic split: prod.splits)

lemma appending_writePostMethods: "appending (writePostMethods sg)"
  unfolding writePostMethods_def
  by (intro appending_seqs) (auto simp: appending_basic appending_writeSignature)

lemma seqs_fails:
  assumes "\<And>w. w \<in> set ws \<Longrightarrow> appending w" "w \<in> set ws" "snd (w []) \<noteq> None"
  shows "snd (seqs ws out) \<noteq> None"
  using assms
proof (induction ws arbitrary: out)
  case Nil
  then show ?case by simp
next
  case (Cons x xs)
  have x: "appending x" by (rule Cons.prems(1)) simp
  show ?case
  proof (cases "snd (x []) = None")
    case True
    with Cons.prems(2,3) have "w \<in> set xs" by auto
    then have "snd (seqs xs (out @ fst (x []))) \<noteq> None"
      using Cons.prems(1,3) by (intro Cons.IH) simp_all
    then show ?thesis unfolding seqs_Cons_appending[OF x] using True by simp
  next
    case False
    then show ?thesis unfolding seqs_Cons_appending[OF x] by auto
  qed
qed

lemma seqs_succeeds:
  assumes "\<And>w. w \<in> set ws \<Longrightarrow> appending w" "\<And>w. w \<in> set ws \<Longrightarrow> snd (w []) = None"
  shows "snd (seqs ws out) = None"
  using assms
proof (induction ws arbitrary: out)
  case Nil
  then show ?case by simp
next
  case (Cons x xs)
  have x: "appending x" by (rule Cons.prems(1)) simp
  have ok: "snd (x []) = None" by (rule Cons.prems(2)) simp
  have "snd (seqs xs (out @ fst (x []))) = None"
    using Cons.prems by (intro Cons.IH) simp_all
  then show ?case unfolding seqs_Cons_appending[OF x] using ok by simp
qed

lemma seqs_prefix:
  assumes "appending w" "\<And>x. x \<in> set ws \<Longrightarrow> appending x"
  shows "\<exists>t. fst (seqs (w # ws) out) = out @ fst (w []) @ t"
proof (cases "snd (w []) = None")
  case True
  have "appending (seqs ws)" using assms(2) by (rule appending_seqs)
  from appendingD[OF this, of "out @ fst (w [])"] True show ?thesis
    unfolding seqs_Cons_appending[OF assms(1)] by simp
next
  case False
  then show ?thesis unfolding seqs_Cons_appending[OF assms(1)] by auto
qed

lemma seqs_append:
  "seqs (ws1 @ ws2) out =
     (case seqs ws1 out of (out', None) \<Rightarrow> seqs ws2 out' | (out', Some e) \<Rightarrow> (out', Some e))"
  by (induction ws1 arbitrary: out) (auto split: prod.splits option.splits)

lemma collect_Inl:
  "a \<in> set files \<Longrightarrow> parses_to a = Inl e \<Longrightarrow> \<exists>e'. collect files = Inl e'"
  by (induction files) (auto simp: SchemaClass_init_def split: sum.splits)

lemma writeHeader_banner: "\<exists>t. fst (writeHeader sg []) = banner @ t"
proof -
  have "\<exists>t. fst (writeHeader sg []) =
          [] @ fst (print (dquote @ dquote @ dquote @ HEADER_COMMENT @ dquote @ dquote @ dquote) []) @ t"
    unfolding writeHeader_def Let_def
    by (rule seqs_prefix) (auto simp: appending_basic split: list.splits)
  then show ?thesis by (simp add: banner_def print_def emit_def)
qed

lemma writeEmbeddedTypes_fails:
  assumes "getEmbeddedTypes c = Inl e"
  shows "snd (writeEmbeddedTypesClassMethods c []) \<noteq> None"
proof -
  have "snd (writeEmbeddedTypes c []) \<noteq> None"
    using assms by (simp add: writeEmbeddedTypes_def eval_then_def raise_def)
  then show ?thesis
    unfolding writeEmbeddedTypesClassMethods_def
    by (intro seqs_fails[where w = "writeEmbeddedTypes c"])
      (auto simp: appending_basic appending_writeEmbeddedTypes)
qed

lemma SchemaClass_write_fails:
  assumes "schema c = RecordSchema n d fs"
    "getEmbeddedTypes c = Inl e \<or> isSearchResponse c \<and> getValueListName c = Inl e"
  shows "snd (SchemaClass_write L c []) \<noteq> None"
proof -
  let ?v = "if isSearchResponse c then
                 eval_then (getValueListName c) (\<lambda>v.
                   writeWithIndent (''_valueListName = '' @ dquote @ v @ dquote) 1)
               else seqs []"
  from assms(2) obtain w where w: "w = writeEmbeddedTypesClassMethods c \<or> w = ?v"
    "snd (w []) \<noteq> None"
  proof
    assume "getEmbeddedTypes c = Inl e"
    from writeEmbeddedTypes_fails[OF this] that show ?thesis by blast
  next
    assume "isSearchResponse c \<and> getValueListName c = Inl e"
    then have "snd (?v []) \<noteq> None" by (simp add: eval_then_def raise_def)
    with that show ?thesis by blast
  qed
  show ?thesis
    unfolding SchemaClass_write_def
  proof (rule seqs_fails[where w = w])
    show "snd (w []) \<noteq> None" by (rule w(2))
    show "w \<in> set ([writeNewline 2,
         print (''class '' @ schema_name (schema c) @ ''('' @ superclass c @ ''):''),
         writeWithIndent (dquote @ dquote @ dquote) 1,
         writeWrappedWithIndent L
           (case schema_doc (schema c) of None \<Rightarrow> ''No documentation'' | Some doc \<Rightarrow> doc) 1,
         writeWithIndent (dquote @ dquote @ dquote) 1] @
        (case schema c of
           RecordSchema n d fs \<Rightarrow>
             [writeWithIndent
                (''_schemaSource = '' @ dquote @ dquote @ dquote @ newline @
                 formatSchema L c @ dquote @ dquote @ dquote) 1,
              writeWithIndent ''schema = avro.schema.parse(_schemaSource)'' 1,
              writeRequiredFields c,
              (if isSearchResponse c then
                 eval_then (getValueListName c) (\<lambda>v.
                   writeWithIndent (''_valueListName = '' @ dquote @ v @ dquote) 1)
               else seqs []),
              writeNewline 1,
              writeEmbeddedTypesClassMethods c,
              writeConstructor L c]
         | EnumSchema n d syms \<Rightarrow>
             map (\<lambda>symbol. writeWithIndent (symbol @ '' = '' @ dquote @ symbol @ dquote) 1)
               syms))"
      using w(1) assms(1) by auto
  next
    fix x
    assume "x \<in> set ([writeNewline 2,
         print (''class '' @ schema_name (schema c) @ ''('' @ superclass c @ ''):''),
         writeWithIndent (dquote @ dquote @ dquote) 1,
         writeWrappedWithIndent L
           (case schema_doc (schema c) of None \<Rightarrow> ''No documentation'' | Some doc \<Rightarrow> doc) 1,
         writeWithIndent (dquote @ dquote @ dquote) 1] @
        (case schema c of
           RecordSchema n d fs \<Rightarrow>
             [writeWithIndent
                (''_schemaSource = '' @ dquote @ dquote @ dquote @ newline @
                 formatSchema L c @ dquote @ dquote @ dquote) 1,
              writeWithIndent ''schema = avro.schema.parse(_schemaSource)'' 1,
              writeRequiredFields c,
              (if isSearchResponse c then
                 eval_then (getValueListName c) (\<lambda>v.
                   writeWithIndent (''_valueListName = '' @ dquote @ v @ dquote) 1)
               else seqs []),
              writeNewline 1,
              writeEmbeddedTypesClassMethods c,
              writeConstructor L c]
         | EnumSchema n d syms \<Rightarrow>
             map (\<lambda>symbol. writeWithIndent (symbol @ '' = '' @ dquote @ symbol @ dquote) 1)
               syms))"
    then show "appending x"
      using assms(1)
      by (auto simp: appending_basic appending_writeRequiredFields
          appending_writeEmbeddedTypesClassMethods appending_writeConstructor
          intro!: appending_eval_then appending_seqs)
  qed
qed

lemma snd_emit [simp]: "snd (emit s out) = None"
  by (simp add: emit_def)

lemma snd_print [simp]: "snd (print s out) = None"
  by (simp add: print_def)

lemma snd_writeWithIndent [simp]: "snd (writeWithIndent s n out) = None"
  by (simp add: writeWithIndent_def)

lemma snd_writeWrappedWithIndent [simp]: "snd (writeWrappedWithIndent L s n out) = None"
  by (simp add: writeWrappedWithIndent_def)

lemma snd_writeNewline [simp]: "snd (writeNewline n out) = None"
  by (simp add: writeNewline_def)

lemma writeRequiredFields_succeeds:
  assumes "schema c = RecordSchema n d fs"
  shows "snd (writeRequiredFields c []) = None"
  unfolding writeRequiredFields_def getFields_def eval_then_def Let_def
  using assms
  by (auto simp del: seqs.simps simp: appending_basic intro!: seqs_succeeds)

lemma writeConstructor_succeeds:
  assumes "schema c = RecordSchema n d fs"
  shows "snd (writeConstructor L c []) = None"
  unfolding writeConstructor_def getFields_def eval_then_def Let_def
  using assms
  by (auto simp del: seqs.simps simp: appending_basic intro!: seqs_succeeds)

lemma writeEmbeddedTypes_succeeds:
  assumes "getEmbeddedTypes c = Inr et"
  shows "snd (writeEmbeddedTypes c []) = None"
  unfolding writeEmbeddedTypes_def eval_then_def
  using assms
  by (auto simp del: seqs.simps simp: appending_basic
      intro!: seqs_succeeds appending_seqs split: prod.splits)

lemma writeEmbeddedTypesClassMethods_succeeds:
  assumes "getEmbeddedTypes c = Inr et"
  shows "snd (writeEmbeddedTypesClassMethods c []) = None"
  unfolding writeEmbeddedTypesClassMethods_def
  using writeEmbeddedTypes_succeeds[OF assms]
  by (auto simp del: seqs.simps simp: appending_basic appending_writeEmbeddedTypes
      intro!: seqs_succeeds)

lemma SchemaClass_write_succeeds:
  assumes "schema c = RecordSchema n d fs" "getEmbeddedTypes c = Inr et"
    "isSearchResponse c \<Longrightarrow> \<exists>x. getValueListName c = Inr x"
  shows "snd (SchemaClass_write L c []) = None"
  unfolding SchemaClass_write_def
  using assms writeRequiredFields_succeeds[OF assms(1)]
    writeConstructor_succeeds[OF assms(1), of L]
    writeEmbeddedTypesClassMethods_succeeds[OF assms(2)]
  by (auto simp del: seqs.simps
      simp: appending_basic appending_writeRequiredFields
        appending_writeEmbeddedTypesClassMethods appending_writeConstructor eval_then_def
      intro!: seqs_succeeds appending_seqs)

subsection \<open>Failed runs\<close>

text \<open>
  Claim C9, as the code has it. When a schema file does not parse, the run ends before
  the output file is opened and leaves the file as it was. When the value list or the
  embedded types of a record among the classes (of distinct names) cannot be resolved,
  the run ends while it writes: the output file has been replaced, and holds the banner
  and what was written before the exception. Nothing is staged or published atomically.
\<close>

theorem failed_run:
  "((\<exists>a \<in> set files. \<exists>e. parses_to a = Inl e) \<longrightarrow>
      (\<exists>e. generate L v files old = (old, Some e))) \<and>
   (\<forall>sg c e.
      SchemaGenerator_init v files = Inr sg \<and> distinct (map name (classes sg)) \<and>
      c \<in> set (classes sg) \<and> (\<exists>n d fs. schema c = RecordSchema n d fs) \<and>
      (getEmbeddedTypes c = Inl e \<or> isSearchResponse c \<and> getValueListName c = Inl e) \<longrightarrow>
      (\<exists>rest e'. generate L v files old = (Some (banner @ rest), Some e')))"
proof (intro conjI allI impI)
  assume "\<exists>a \<in> set files. \<exists>e. parses_to a = Inl e"
  then obtain e' where "collect files = Inl e'" using collect_Inl by blast
  then have "generate L v files old = (old, Some e')"
    by (simp add: generate_def SchemaGenerator_init_def)
  then show "\<exists>e. generate L v files old = (old, Some e)" by blast
next
  fix sg :: SchemaGenerator and c :: SchemaClass and e
  assume h: "SchemaGenerator_init v files = Inr sg \<and> distinct (map name (classes sg)) \<and>
      c \<in> set (classes sg) \<and> (\<exists>n d fs. schema c = RecordSchema n d fs) \<and>
      (getEmbeddedTypes c = Inl e \<or> isSearchResponse c \<and> getValueListName c = Inl e)"
  then obtain n d fs where r: "schema c = RecordSchema n d fs" by blast
  from h have c: "snd (SchemaClass_write L c []) \<noteq> None"
    using SchemaClass_write_fails[OF r] by blast
  have "snd (writeClasses L sg []) \<noteq> None"
    unfolding writeClasses_sorted[of sg L, OF conjunct1[OF conjunct2[OF h]]]
  proof (rule seqs_fails[where w = "SchemaClass_write L c"])
    show "SchemaClass_write L c \<in> set (map (SchemaClass_write L) (sort_key name (classes sg)))"
      using h by simp
    show "snd (SchemaClass_write L c []) \<noteq> None" by (rule c)
  qed (auto simp: appending_SchemaClass_write)
  then have "snd (SchemaGenerator_write L sg) \<noteq> None"
    unfolding SchemaGenerator_write_def
    by (intro seqs_fails[where w = "writeClasses L sg"])
      (auto simp: appending_writeHeader appending_writeClasses appending_writePostMethods)
  then obtain e' where e': "snd (SchemaGenerator_write L sg) = Some e'" by blast
  have "\<exists>t. fst (SchemaGenerator_write L sg) = [] @ fst (writeHeader sg []) @ t"
    unfolding SchemaGenerator_write_def
    by (rule seqs_prefix)
      (auto simp: appending_writeHeader appending_writeClasses appending_writePostMethods)
  with writeHeader_banner[of sg] obtain t where
    "fst (SchemaGenerator_write L sg) = banner @ t" by auto
  with e' have "SchemaGenerator_write L sg = (banner @ t, Some e')"
    by (cases "SchemaGenerator_write L sg") simp
  with h have "generate L v files old = (Some (banner @ t), Some e')"
    by (simp add: generate_def)
  then show "\<exists>rest e'. generate L v files old = (Some (banner @ rest), Some e')" by blast
qed

lemma init_response_without_token:
  "SchemaGenerator_init ''v0.5.1'' [file_of response_without_token] =
     Inr \<lparr>version = ''v0.5.1'', classes = [class_of response_without_token],
          postSignatures = []\<rparr>"
  by (simp add: SchemaGenerator_init_def SchemaClass_init_def file_of_def class_of_def
      response_without_token_def requestClassNames_def responseClassNames_def
      isSearchRequest_def isSearchResponse_def match_group_at_def Let_def)

theorem failed_run_witness:
  "generate oneline ''v0.5.1'' [unparsable] (Some ''old contents'') =
     (Some ''old contents'', Some SchemaParseException) \<and>
   (\<exists>rest e'. generate oneline ''v0.5.1'' [file_of response_without_token]
        (Some ''old contents'') = (Some (banner @ rest), Some e'))"
proof -
  have 1: "generate oneline ''v0.5.1'' [unparsable] (Some ''old contents'') =
     (Some ''old contents'', Some SchemaParseException)"
    using failed_run[of "[unparsable]" oneline "''v0.5.1''" "Some ''old contents''"]
    by (simp add: generate_def SchemaGenerator_init_def SchemaClass_init_def unparsable_def)
  have "getValueListName (class_of response_without_token) = Inl ValueError"
    by (simp add: getValueListName_def getFields_def class_of_def response_without_token_def
        field_of_def isSearchResponse_def match_group_at_def Let_def)
  moreover have "isSearchResponse (class_of response_without_token)"
    by (simp add: class_of_def response_without_token_def
        isSearchResponse_def match_group_at_def Let_def)
  moreover have "\<exists>n d fs. schema (class_of response_without_token) = RecordSchema n d fs"
    by (simp add: class_of_def response_without_token_def)
  ultimately have 2: "\<exists>rest e'. generate oneline ''v0.5.1'' [file_of response_without_token]
        (Some ''old contents'') = (Some (banner @ rest), Some e')"
    using failed_run[of "[file_of response_without_token]" oneline "''v0.5.1''"
        "Some ''old contents''"] init_response_without_token
    by (auto simp: class_of_def)
  from 1 2 show ?thesis by (rule conjI)
qed

text \<open>
  Claim C9 as stated fails: a search response without \<open>next_page_token\<close> ends the
  run with the \<open>ValueError\<close> of \<open>remove\<close>, and the output file, which held other
  contents, is left with the header and the beginning of the class.
\<close>

theorem partial_output_counterexample:
  "generate oneline ''v0.5.1'' [file_of response_without_token] (Some ''old contents'') =
     (Some
       (banner @
      ''from protocol import ProtocolElement'' @ newline @
      ''from protocol import SearchRequest'' @ newline @
      ''from protocol import SearchResponse'' @ newline @
      newline @
      ''import avro.schema'' @ newline @
      newline @
      ''version = '' @ squote @ ''0.5.1'' @ squote @ newline @
      newline @
      newline @
      ''class SearchVariantsResponse(SearchResponse):'' @ newline @
      ''    '' @ dquote @ dquote @ dquote @ newline @
      ''    No documentation'' @ newline @
      ''    '' @ dquote @ dquote @ dquote @ newline @
      ''    _schemaSource = '' @ dquote @ dquote @ dquote @ newline @
      ''{'' @ dquote @ ''name'' @ dquote @ '': '' @ dquote @ ''SearchVariantsResponse'' @ dquote @ ''}'' @ newline @
      dquote @ dquote @ dquote @ newline @
      ''    schema = avro.schema.parse(_schemaSource)'' @ newline @
      ''    requiredFields = set([])'' @ newline),
      Some ValueError)"
  by code_simp

subsection \<open>The order of enumeration\<close>

lemmas init_simps =
  SchemaGenerator_init_def SchemaClass_init_def file_of_def class_of_def
  SearchVariantsRequest_def SearchVariantsResponse_def SearchReadsRequest_def
  SearchReadsResponse_def requestClassNames_def responseClassNames_def
  isSearchRequest_def isSearchResponse_def match_group_at_def
  postSignature_def lower_def lower_char_def Let_def

lemma init_enumeration_a:
  "SchemaGenerator_init v enumeration_a =
     Inr \<lparr>version = v,
          classes = [class_of SearchReadsRequest, class_of SearchReadsResponse,
                     class_of SearchVariantsRequest, class_of SearchVariantsResponse],
          postSignatures =
            [(''/reads/search'', ''SearchReadsRequest'', ''SearchReadsResponse''),
             (''/variants/search'', ''SearchVariantsRequest'', ''SearchVariantsResponse'')]\<rparr>"
  by (simp add: enumeration_a_def init_simps)

lemma init_enumeration_b:
  "SchemaGenerator_init v enumeration_b =
     Inr \<lparr>version = v,
          classes = [class_of SearchReadsRequest, class_of SearchVariantsResponse,
                     class_of SearchVariantsRequest, class_of SearchReadsResponse],
          postSignatures =
            [(''/reads/search'', ''SearchReadsRequest'', ''SearchVariantsResponse''),
             (''/variants/search'', ''SearchVariantsRequest'', ''SearchReadsResponse'')]\<rparr>"
  by (simp add: enumeration_b_def init_simps)

lemma mset_enumerations: "mset enumeration_a = mset enumeration_b"
  by (simp add: enumeration_a_def enumeration_b_def add_mset_commute)

text \<open>
  Claim C2, against the code. The request names and the response names are not sorted
  before they are paired: they are zipped in the order of enumeration, and only the
  finished table is sorted. Two enumerations of the same four files give two pairings;
  in the second, \<open>SearchReadsRequest\<close> is paired with \<open>SearchVariantsResponse\<close>.
\<close>

theorem pairing_follows_enumeration:
  "mset enumeration_a = mset enumeration_b \<and>
   SchemaGenerator_init v enumeration_a =
     Inr \<lparr>version = v,
          classes = [class_of SearchReadsRequest, class_of SearchReadsResponse,
                     class_of SearchVariantsRequest, class_of SearchVariantsResponse],
          postSignatures =
            [(''/reads/search'', ''SearchReadsRequest'', ''SearchReadsResponse''),
             (''/variants/search'', ''SearchVariantsRequest'', ''SearchVariantsResponse'')]\<rparr> \<and>
   SchemaGenerator_init v enumeration_b =
     Inr \<lparr>version = v,
          classes = [class_of SearchReadsRequest, class_of SearchVariantsResponse,
                     class_of SearchVariantsRequest, class_of SearchReadsResponse],
          postSignatures =
            [(''/reads/search'', ''SearchReadsRequest'', ''SearchVariantsResponse''),
             (''/variants/search'', ''SearchVariantsRequest'', ''SearchReadsResponse'')]\<rparr>"
  using mset_enumerations init_enumeration_a[of v] init_enumeration_b[of v]
  by (intro conjI)


lemma seqs_single: "seqs [w] out = w out"
  by (cases "w out") (auto split: option.splits)

lemma write_after_header_and_classes:
  assumes "snd (writeHeader sg []) = None" "snd (writeClasses L sg []) = None"
  shows "SchemaGenerator_write L sg =
     (fst (seqs [writeHeader sg, writeClasses L sg] []) @ fst (writePostMethods sg []),
      snd (writePostMethods sg []))"
proof -
  let ?hc = "seqs [writeHeader sg, writeClasses L sg] []"
  have ok: "snd ?hc = None"
    using assms
    by (intro seqs_succeeds) (auto simp: appending_writeHeader appending_writeClasses)
  then have hc: "?hc = (fst ?hc, None)" by (metis prod.collapse)
  have "SchemaGenerator_write L sg =
          seqs ([writeHeader sg, writeClasses L sg] @ [writePostMethods sg]) []"
    by (simp only: SchemaGenerator_write_def append.simps)
  also have "\<dots> = (case ?hc of (out', None) \<Rightarrow> seqs [writePostMethods sg] out'
                        | (out', Some e) \<Rightarrow> (out', Some e))"
    by (rule seqs_append)
  also have "\<dots> = seqs [writePostMethods sg] (fst ?hc)"
    by (subst hc) (simp only: prod.case option.case)
  also have "\<dots> = writePostMethods sg (fst ?hc)" by (rule seqs_single)
  also have "\<dots> = (fst ?hc @ fst (writePostMethods sg []), snd (writePostMethods sg []))"
    by (rule appendingD[OF appending_writePostMethods])
  finally show ?thesis .
qed

lemma example_class_facts:
  "getEmbeddedTypes (class_of SearchReadsRequest) = Inr []"
  "getEmbeddedTypes (class_of SearchReadsResponse) = Inr [(''alignments'', ''ReadAlignment'')]"
  "getEmbeddedTypes (class_of SearchVariantsRequest) = Inr []"
  "getEmbeddedTypes (class_of SearchVariantsResponse) = Inr [(''variants'', ''Variant'')]"
  "getValueListName (class_of SearchReadsResponse) = Inr ''alignments''"
  "getValueListName (class_of SearchVariantsResponse) = Inr ''variants''"
  "\<not> isSearchResponse (class_of SearchReadsRequest)"
  "\<not> isSearchResponse (class_of SearchVariantsRequest)"
  by (simp_all add: getEmbeddedTypes_def embeddedEdge_def branch_def getValueListName_def
      getFields_def nullable_string_def init_simps)

text \<open>
  Claim C3, against the code. For the same two enumerations of the same four files, and
  whatever \<open>textwrap\<close> and \<open>json\<close> compute, the two runs leave different outputs:
  the classes are written alike, the table \<open>postMethods\<close> is not.
\<close>

theorem output_follows_enumeration:
  "mset enumeration_a = mset enumeration_b \<and>
   generate L ''v0.5.1'' enumeration_a old \<noteq> generate L ''v0.5.1'' enumeration_b old"
proof
  show "mset enumeration_a = mset enumeration_b" by (rule mset_enumerations)
next
  define sga where "sga = \<lparr>version = ''v0.5.1'',
          classes = [class_of SearchReadsRequest, class_of SearchReadsResponse,
                     class_of SearchVariantsRequest, class_of SearchVariantsResponse],
          postSignatures =
            [(''/reads/search'', ''SearchReadsRequest'', ''SearchReadsResponse''),
             (''/variants/search'', ''SearchVariantsRequest'', ''SearchVariantsResponse'')]\<rparr>"
  define sgb where "sgb = \<lparr>version = ''v0.5.1'',
          classes = [class_of SearchReadsRequest, class_of SearchVariantsResponse,
                     class_of SearchVariantsRequest, class_of SearchReadsResponse],
          postSignatures =
            [(''/reads/search'', ''SearchReadsRequest'', ''SearchVariantsResponse''),
             (''/variants/search'', ''SearchVariantsRequest'', ''SearchReadsResponse'')]\<rparr>"
  have ga: "generate L ''v0.5.1'' enumeration_a old =
              (Some (fst (SchemaGenerator_write L sga)), snd (SchemaGenerator_write L sga))"
    by (simp add: generate_def init_enumeration_a sga_def split: prod.splits)
  have gb: "generate L ''v0.5.1'' enumeration_b old =
              (Some (fst (SchemaGenerator_write L sgb)), snd (SchemaGenerator_write L sgb))"
    by (simp add: generate_def init_enumeration_b sgb_def split: prod.splits)
  have da: "distinct (map name (classes sga))"
    by (simp add: sga_def class_of_def SearchVariantsRequest_def SearchVariantsResponse_def
        SearchReadsRequest_def SearchReadsResponse_def)
  have db: "distinct (map name (classes sgb))"
    by (simp add: sgb_def class_of_def SearchVariantsRequest_def SearchVariantsResponse_def
        SearchReadsRequest_def SearchReadsResponse_def)
  have ms: "mset (classes sgb) = mset (classes sga)"
    by (simp add: sga_def sgb_def add_mset_commute)
  have cl: "writeClasses L sgb = writeClasses L sga"
    unfolding writeClasses_sorted[OF da] writeClasses_sorted[OF db]
    by (simp only: sort_key_permutation[OF da ms])
  have hd: "writeHeader sgb = writeHeader sga"
    by (simp add: writeHeader_def sga_def sgb_def)
  have hok: "snd (writeHeader sga []) = None"
    unfolding writeHeader_def
    by (rule seqs_succeeds) (auto simp: appending_basic sga_def Let_def)
  have cok: "snd (writeClasses L sga []) = None"
    unfolding writeClasses_sorted[OF da]
  proof (rule seqs_succeeds)
    fix w assume "w \<in> set (map (SchemaClass_write L) (sort_key name (classes sga)))"
    then obtain c where c: "c \<in> set (classes sga)" "w = SchemaClass_write L c" by auto
    then show "appending w" by (simp add: appending_SchemaClass_write)
    from c(1) have "c = class_of SearchReadsRequest \<or> c = class_of SearchReadsResponse \<or>
        c = class_of SearchVariantsRequest \<or> c = class_of SearchVariantsResponse"
      by (auto simp: sga_def)
    then have "snd (SchemaClass_write L c []) = None"
      by (elim disjE)
        (auto intro!: SchemaClass_write_succeeds simp: example_class_facts,
         auto simp: class_of_def SearchVariantsRequest_def SearchVariantsResponse_def
           SearchReadsRequest_def SearchReadsResponse_def)
    with c(2) show "snd (w []) = None" by simp
  qed
  note wa = write_after_header_and_classes[OF hok cok]
  note wb = write_after_header_and_classes[of sgb L, unfolded hd cl, OF hok cok]
  have pd: "fst (writePostMethods sga []) \<noteq> fst (writePostMethods sgb [])"
    by (simp add: sga_def sgb_def writePostMethods_def writeSignature_def emit_def)
  show "generate L ''v0.5.1'' enumeration_a old \<noteq> generate L ''v0.5.1'' enumeration_b old"
    unfolding ga gb wa wb using pd by simp
qed

end
